theory Spec2Isabelle
  imports Main "HOL-Library.Sublist" "HOL-Library.Product_Lexorder" "HOL-Library.Multiset"
begin

section \<open>Strings and the Python built-ins the code calls\<close>

text \<open>
  A Python \<open>str\<close> is modelled as a \<open>string\<close> whose characters are the code points
  below 256. \<open>str.lower\<close>, \<open>str.strip\<close>, \<open>in\<close>, \<open>re.sub\<close> with the class
  \<open>[^0-9s]\<close>, \<open>str.replace\<close>, slicing and \<open>int\<close> are written out below as Python
  defines them on that range. \<open>int\<close> is the arbitrary-precision integer, and \<open>int(s)\<close>
  raises ValueError on a string of more than 4300 digits, the interpreter's default limit
  on the conversion of decimal strings (\<open>sys.int_info.default_max_str_digits\<close>).
\<close>

datatype error = ValueError

definition is_digit :: "char \<Rightarrow> bool" where
  "is_digit c = (c \<in> set ''0123456789'')"

definition is_space :: "char \<Rightarrow> bool" where
  \<comment> \<open>\<open>str.isspace\<close> below 256: TAB..CR, FS..US, SPACE, NEL, NBSP\<close>
  "is_space c =
     (let n = (of_char c :: nat)
      in (9 \<le> n \<and> n \<le> 13) \<or> (28 \<le> n \<and> n \<le> 32) \<or> n = 133 \<or> n = 160)"

definition lower_char :: "char \<Rightarrow> char" where
  \<comment> \<open>\<open>str.lower\<close> below 256: A..Z, and the Latin-1 capitals except the multiplication sign\<close>
  "lower_char c =
     (let n = (of_char c :: nat)
      in if (65 \<le> n \<and> n \<le> 90) \<or> (192 \<le> n \<and> n \<le> 222 \<and> n \<noteq> 215)
         then char_of (n + 32) else c)"

definition lower :: "string \<Rightarrow> string" where
  "lower s = map lower_char s"

definition strip :: "string \<Rightarrow> string" where
  "strip s = rev (dropWhile is_space (rev (dropWhile is_space s)))"

definition re_sub_non_digit_s :: "string \<Rightarrow> string" where
  \<comment> \<open>\<open>re.sub(r"[^0-9s]", "", date_str)\<close>\<close>
  "re_sub_non_digit_s s = filter (\<lambda>c. is_digit c \<or> c = CHR ''s'') s"

definition replace_s :: "string \<Rightarrow> string" where
  \<comment> \<open>\<open>date_str.replace("s", "")\<close>\<close>
  "replace_s s = filter (\<lambda>c. c \<noteq> CHR ''s'') s"

definition digit_val :: "char \<Rightarrow> int" where
  "digit_val c = int (of_char c) - 48"

definition int_of_digits :: "string \<Rightarrow> int" where
  "int_of_digits s = foldl (\<lambda>a c. 10 * a + digit_val c) 0 s"

definition int_max_str_digits :: nat where
  \<comment> \<open>\<open>sys.int_info.default_max_str_digits\<close>\<close>
  "int_max_str_digits = 4300"

definition py_int :: "string \<Rightarrow> error + int" where
  \<comment> \<open>\<open>int(s)\<close> on a string of the characters 0..9 and s, the only ones \<open>parse_date\<close>
      leaves in its argument: the decimal value of a non-empty string of at most 4300
      digits (leading zeros counted), ValueError on the empty string, on a longer digit
      string and on a string that holds an s\<close>
  "py_int s =
     (if s \<noteq> [] \<and> list_all is_digit s \<and> length s \<le> int_max_str_digits
      then Inr (int_of_digits s) else Inl ValueError)"

section \<open>sorter.py\<close>

text \<open>
  \<open>parse_date\<close> takes a string or \<open>None\<close>; \<open>not date_str\<close> holds of \<open>None\<close> and of the empty
  string. The source rebinds \<open>date_str\<close> twice; \<open>d0\<close>, \<open>d1\<close> and \<open>d2\<close> are its three
  values. An exception that leaves the function is the result \<open>Inl\<close>.
\<close>

definition parse_date :: "string option \<Rightarrow> error + int" where
  "parse_date date_str =
     (case date_str of
        None \<Rightarrow> Inr 0
      | Some d0 \<Rightarrow>
          if d0 = [] then Inr 0
          else
            let d1 = lower (strip d0);
                is_bc = (sublist ''bc'' d1 \<or> sublist ''b.c.'' d1);
                d2 = re_sub_non_digit_s d1
            in if CHR ''s'' \<in> set d2
               then (case py_int (take 4 (replace_s d2)) of
                       Inl e \<Rightarrow> Inl e
                     | Inr year \<Rightarrow>
                         let year = year + 5
                         in Inr (if is_bc then - year else year))
               else (case py_int d2 of
                       Inl e \<Rightarrow> Inr 0
                     | Inr year \<Rightarrow> Inr (if is_bc then - year else year)))"

text \<open>
  A record is a \<open>Dict[str, str]\<close>: a finite map from field names to strings, in which any
  field may be missing.
\<close>

type_synonym book = "string \<Rightarrow> string option"

definition dict_get :: "book \<Rightarrow> string \<Rightarrow> string \<Rightarrow> string" where
  \<comment> \<open>\<open>book.get(key, default)\<close>\<close>
  "dict_get b k d = (case b k of None \<Rightarrow> d | Some v \<Rightarrow> v)"

definition sort_key_book :: "book \<Rightarrow> error + (int \<times> int)" where
  \<comment> \<open>the inner function \<open>sort_key\<close> of \<open>sort_books\<close>\<close>
  "sort_key_book b =
     (case parse_date (Some (dict_get b ''original_date'' [])) of
        Inl e \<Rightarrow> Inl e
      | Inr orig_date \<Rightarrow>
          (case parse_date (Some (dict_get b ''release_date'' [])) of
             Inl e \<Rightarrow> Inl e
           | Inr rel_date \<Rightarrow> Inr (orig_date, rel_date)))"

text \<open>
  \<open>sorted(iterable, key=, reverse=)\<close> is Python's built-in: it calls \<open>key\<close> once on
  every element, in order, and an exception of \<open>key\<close> leaves \<open>sorted\<close>; it then sorts
  the elements stably by their keys. With \<open>reverse=True\<close> the list is reversed, sorted
  stably, and reversed again, so that elements with equal keys keep their input order in
  both directions. The result of a stable sort is determined by the keys, so insertion
  sort (\<open>List.sort_key\<close>) stands for it.
\<close>

fun decorate :: "('a \<Rightarrow> error + 'k) \<Rightarrow> 'a list \<Rightarrow> error + ('k \<times> 'a) list" where
  "decorate key [] = Inr []"
| "decorate key (x # xs) =
     (case key x of
        Inl e \<Rightarrow> Inl e
      | Inr k \<Rightarrow> (case decorate key xs of Inl e \<Rightarrow> Inl e | Inr kxs \<Rightarrow> Inr ((k, x) # kxs)))"

definition py_sorted :: "'a list \<Rightarrow> ('a \<Rightarrow> error + 'k::linorder) \<Rightarrow> bool \<Rightarrow> error + 'a list" where
  "py_sorted xs key reverse =
     (case decorate key xs of
        Inl e \<Rightarrow> Inl e
      | Inr kxs \<Rightarrow>
          Inr (map snd (if reverse then rev (sort_key fst (rev kxs)) else sort_key fst kxs)))"

definition sort_books :: "book list \<Rightarrow> bool \<Rightarrow> error + book list" where
  "sort_books books reverse = py_sorted books sort_key_book reverse"

section \<open>app.py: the search filter\<close>

definition filter_books :: "book list \<Rightarrow> string \<Rightarrow> book list" where
  \<comment> \<open>the \<open>if search_query:\<close> block\<close>
  "filter_books books search_query =
     (if search_query \<noteq> []
      then (let search_lower = lower search_query
            in filter (\<lambda>b. sublist search_lower (lower (dict_get b ''title'' []))
                          \<or> sublist search_lower (lower (dict_get b ''author'' []))) books)
      else books)"

section \<open>Example records\<close>

definition example_hobbit :: book where
  "example_hobbit =
     [''title'' \<mapsto> ''The Hobbit'', ''author'' \<mapsto> ''J.R.R. Tolkien'', ''original_date'' \<mapsto> ''1937'']"

definition example_dune :: book where
  "example_dune =
     [''title'' \<mapsto> ''Dune'', ''author'' \<mapsto> ''Frank Herbert'', ''original_date'' \<mapsto> ''1965'']"

definition example_fellowship :: book where
  "example_fellowship =
     [''title'' \<mapsto> ''The Fellowship of the Ring'', ''original_date'' \<mapsto> ''1954'']"

definition example_towers :: book where
  "example_towers = [''title'' \<mapsto> ''The Two Towers'', ''original_date'' \<mapsto> ''1954'']"

definition example_iliad :: book where
  "example_iliad =
     [''title'' \<mapsto> ''Iliad'', ''author'' \<mapsto> ''Homer'', ''original_date'' \<mapsto> ''Classical antiquity'',
      ''release_date'' \<mapsto> ''1998'']"

definition example_untitled :: book where
  "example_untitled = [''image_path'' \<mapsto> ''./Data/IMGS/3.jpg'']"

section \<open>The specification's wording, for comparison\<close>

definition decade_midpoint_spec :: "string \<Rightarrow> error + int" where
  \<comment> \<open>step 5 of the specification's algorithm, on the cleaned token: "take at most the first
      four digits before the s, parse as an integer, and add 5"\<close>
  "decade_midpoint_spec token =
     (case py_int (take 4 (takeWhile (\<lambda>c. c \<noteq> CHR ''s'') token)) of
        Inl e \<Rightarrow> Inl e
      | Inr year \<Rightarrow> Inr (year + 5))"

definition bc_marker_spec :: "string \<Rightarrow> bool" where
  \<comment> \<open>step 3 of the specification's algorithm: the substring bc "in any case, with or
      without internal punctuation such as periods", read as bc with or without a period
      between the two letters\<close>
  "bc_marker_spec d = (sublist ''bc'' (lower d) \<or> sublist ''b.c'' (lower d))"

section \<open>Characters, trimming and the cleaned token\<close>

lemma char_code_iff: "c = d \<longleftrightarrow> (of_char c :: nat) = of_char d"
  by (simp only: of_char_eq_iff)

lemma is_digit_code: "is_digit c \<longleftrightarrow> 48 \<le> (of_char c :: nat) \<and> (of_char c :: nat) \<le> 57"
proof -
  have "is_digit c \<longleftrightarrow> (of_char c :: nat) \<in> {48, 49, 50, 51, 52, 53, 54, 55, 56, 57}"
    unfolding is_digit_def
    by (simp add: char_code_iff [of c])
  also have "\<dots> \<longleftrightarrow> 48 \<le> (of_char c :: nat) \<and> (of_char c :: nat) \<le> 57"
    by (simp, arith)
  finally show ?thesis .
qed

lemma of_char_lower_char:
  "(of_char (lower_char c) :: nat) =
     (if (65 \<le> (of_char c :: nat) \<and> (of_char c :: nat) \<le> 90) \<or>
         (192 \<le> (of_char c :: nat) \<and> (of_char c :: nat) \<le> 222 \<and> (of_char c :: nat) \<noteq> 215)
      then of_char c + 32 else of_char c)"
  by (simp add: lower_char_def Let_def of_char_of)

lemma is_digit_lower_char: "is_digit (lower_char c) \<longleftrightarrow> is_digit c"
  by (simp add: is_digit_code of_char_lower_char)

lemma lower_char_digit: "is_digit c \<Longrightarrow> lower_char c = c"
  by (simp add: is_digit_code lower_char_def)

lemma lower_char_eq_s: "lower_char c = CHR ''s'' \<longleftrightarrow> c = CHR ''s'' \<or> c = CHR ''S''"
  by (simp add: char_code_iff [of _ "CHR ''s''"] char_code_iff [of _ "CHR ''S''"] of_char_lower_char, arith)

lemma is_space_lower_char: "is_space (lower_char c) \<longleftrightarrow> is_space c"
  by (simp add: is_space_def of_char_lower_char Let_def)

lemma digit_not_space: "is_digit c \<Longrightarrow> \<not> is_space c"
  by (simp add: is_digit_code is_space_def)

lemma s_not_digit: "\<not> is_digit (CHR ''s'')"
  by (simp add: is_digit_def)

lemma s_not_space: "\<not> is_space (CHR ''s'')"
  by (simp add: is_space_def)

lemma filter_dropWhile_disjoint:
  "(\<And>x. Q x \<Longrightarrow> \<not> P x) \<Longrightarrow> filter P (dropWhile Q xs) = filter P xs"
  by (induction xs) auto

lemma filter_strip:
  assumes "\<And>c. is_space c \<Longrightarrow> \<not> P c"
  shows "filter P (strip s) = filter P s"
proof -
  have "filter P (strip s) = rev (filter P (dropWhile is_space (rev (dropWhile is_space s))))"
    by (simp add: strip_def rev_filter)
  also have "\<dots> = rev (filter P (rev (dropWhile is_space s)))"
    using assms by (simp add: filter_dropWhile_disjoint)
  also have "\<dots> = filter P (dropWhile is_space s)"
    by (simp add: rev_filter)
  also have "\<dots> = filter P s"
    using assms by (simp add: filter_dropWhile_disjoint)
  finally show ?thesis .
qed

lemma map_dropWhile_commute:
  "(\<And>x. Q (f x) = Q x) \<Longrightarrow> map f (dropWhile Q xs) = dropWhile Q (map f xs)"
  by (induction xs) auto

lemma lower_strip: "lower (strip s) = strip (lower s)"
proof -
  have a: "map lower_char (dropWhile is_space xs) = dropWhile is_space (map lower_char xs)" for xs
    by (rule map_dropWhile_commute) (rule is_space_lower_char)
  show ?thesis
    by (simp add: lower_def strip_def rev_map [symmetric] a)
qed

lemma sublist_dropWhile_iff:
  assumes "t \<noteq> []" and "\<not> Q (hd t)"
  shows "sublist t (dropWhile Q xs) \<longleftrightarrow> sublist t xs"
proof (induction xs)
  case Nil
  show ?case by simp
next
  case (Cons x xs)
  show ?case
  proof (cases "Q x")
    case True
    with assms have "\<not> prefix t (x # xs)"
      by (cases t) auto
    with True Cons show ?thesis
      by (simp add: sublist_Cons_right)
  next
    case False
    then show ?thesis by simp
  qed
qed

lemma sublist_strip_iff:
  assumes "t \<noteq> []" and "\<not> is_space (hd t)" and "\<not> is_space (last t)"
  shows "sublist t (strip s) \<longleftrightarrow> sublist t s"
proof -
  have r: "rev t \<noteq> []" "\<not> is_space (hd (rev t))"
    using assms by (simp_all add: hd_rev)
  have "sublist t (strip s) \<longleftrightarrow> sublist (rev t) (dropWhile is_space (rev (dropWhile is_space s)))"
    by (simp add: strip_def sublist_rev_right)
  also have "\<dots> \<longleftrightarrow> sublist (rev t) (rev (dropWhile is_space s))"
    using r by (rule sublist_dropWhile_iff)
  also have "\<dots> \<longleftrightarrow> sublist t (dropWhile is_space s)"
    by simp
  also have "\<dots> \<longleftrightarrow> sublist t s"
    using assms(1,2) by (rule sublist_dropWhile_iff)
  finally show ?thesis .
qed

lemma is_bc_strip:
  "(sublist ''bc'' (lower (strip d)) \<or> sublist ''b.c.'' (lower (strip d))) \<longleftrightarrow>
   (sublist ''bc'' (lower d) \<or> sublist ''b.c.'' (lower d))"
proof -
  have "sublist ''bc'' (strip (lower d)) \<longleftrightarrow> sublist ''bc'' (lower d)"
    by (rule sublist_strip_iff) (simp_all add: is_space_def)
  moreover have "sublist ''b.c.'' (strip (lower d)) \<longleftrightarrow> sublist ''b.c.'' (lower d)"
    by (rule sublist_strip_iff) (simp_all add: is_space_def)
  ultimately show ?thesis by (simp add: lower_strip)
qed

lemma token_strip: "re_sub_non_digit_s (lower (strip d)) = re_sub_non_digit_s (lower d)"
  unfolding re_sub_non_digit_s_def lower_strip
  by (rule filter_strip) (auto simp: digit_not_space s_not_space)

lemma token_raw:
  "re_sub_non_digit_s (lower d) =
     map lower_char (filter (\<lambda>c. is_digit c \<or> c = CHR ''s'' \<or> c = CHR ''S'') d)"
  by (simp add: re_sub_non_digit_s_def lower_def filter_map comp_def is_digit_lower_char lower_char_eq_s)

lemma s_in_token: "CHR ''s'' \<in> set (re_sub_non_digit_s (lower d)) \<longleftrightarrow> CHR ''s'' \<in> set d \<or> CHR ''S'' \<in> set d"
proof -
  have "CHR ''s'' \<in> set (re_sub_non_digit_s (lower d)) \<longleftrightarrow>
        (\<exists>c\<in>set d. (is_digit c \<or> c = CHR ''s'' \<or> c = CHR ''S'') \<and> lower_char c = CHR ''s'')"
    by (auto simp: token_raw image_iff eq_commute [of "CHR ''s''"])
  also have "\<dots> \<longleftrightarrow> (\<exists>c\<in>set d. c = CHR ''s'' \<or> c = CHR ''S'')"
    by (auto simp: lower_char_eq_s)
  also have "\<dots> \<longleftrightarrow> CHR ''s'' \<in> set d \<or> CHR ''S'' \<in> set d"
    by auto
  finally show ?thesis .
qed

lemma map_lower_digits: "map lower_char (filter is_digit d) = filter is_digit d"
  by (induction d) (simp_all add: lower_char_digit)

lemma replace_s_token: "replace_s (re_sub_non_digit_s (lower d)) = filter is_digit d"
proof -
  have "replace_s (re_sub_non_digit_s (lower d)) = filter is_digit (lower d)"
    unfolding replace_s_def re_sub_non_digit_s_def
    by (induction d) (auto simp: lower_def s_not_digit)
  also have "\<dots> = map lower_char (filter is_digit d)"
    by (simp add: lower_def filter_map comp_def is_digit_lower_char)
  finally show ?thesis by (simp add: map_lower_digits)
qed

lemma token_no_s:
  "CHR ''s'' \<notin> set (re_sub_non_digit_s (lower d)) \<Longrightarrow> re_sub_non_digit_s (lower d) = filter is_digit d"
proof -
  assume a: "CHR ''s'' \<notin> set (re_sub_non_digit_s (lower d))"
  have "replace_s (re_sub_non_digit_s (lower d)) = re_sub_non_digit_s (lower d)"
    unfolding replace_s_def using a by (simp add: filter_id_conv) blast
  then show ?thesis by (simp add: replace_s_token)
qed

lemma py_int_digits:
  "list_all is_digit s \<Longrightarrow>
   py_int s = (if s = [] \<or> int_max_str_digits < length s then Inl ValueError
               else Inr (int_of_digits s))"
  by (auto simp: py_int_def)

lemma digits_fold_nonneg:
  "list_all is_digit s \<Longrightarrow> 0 \<le> a \<Longrightarrow> 0 \<le> foldl (\<lambda>a c. 10 * a + digit_val c) a s"
proof (induction s arbitrary: a)
  case Nil
  then show ?case by simp
next
  case (Cons c s)
  then have "0 \<le> digit_val c"
    by (simp add: digit_val_def is_digit_code)
  with Cons show ?case by simp
qed

lemma int_of_digits_nonneg: "list_all is_digit s \<Longrightarrow> 0 \<le> int_of_digits s"
  by (simp add: int_of_digits_def digits_fold_nonneg)

lemma list_all_filter_digit: "list_all is_digit (filter is_digit d)"
  by (simp add: list_all_iff)

lemma list_all_take_digit: "list_all is_digit (take n (filter is_digit d))"
  by (auto simp: list_all_iff dest: in_set_takeD)

lemma py_int_take_4:
  "py_int (take 4 (filter is_digit d)) =
     (if filter is_digit d = [] then Inl ValueError
      else Inr (int_of_digits (take 4 (filter is_digit d))))"
  using py_int_digits [OF list_all_take_digit, of 4 d]
  by (simp add: int_max_str_digits_def)

text \<open>
  \<open>parse_date\<close> read off the raw text: the letter s in either case selects the decade
  branch, the digits of the text in order are the number, and the era marker is looked for
  in the lowercased text. Outside the decade branch a text of more than 4300 digits gives 0:
  \<open>int\<close> raises on it and the error is caught.
\<close>

lemma parse_date_Some:
  "parse_date (Some d) =
     (if CHR ''s'' \<in> set d \<or> CHR ''S'' \<in> set d
      then (if filter is_digit d = [] then Inl ValueError
            else Inr (if sublist ''bc'' (lower d) \<or> sublist ''b.c.'' (lower d)
                      then - (int_of_digits (take 4 (filter is_digit d)) + 5)
                      else int_of_digits (take 4 (filter is_digit d)) + 5))
      else Inr (if int_max_str_digits < length (filter is_digit d) then 0
                else if sublist ''bc'' (lower d) \<or> sublist ''b.c.'' (lower d)
                then - int_of_digits (filter is_digit d)
                else int_of_digits (filter is_digit d)))"
proof (cases "d = []")
  case True
  then show ?thesis
    by (simp add: parse_date_def int_of_digits_def lower_def)
next
  case False
  show ?thesis
  proof (cases "CHR ''s'' \<in> set d \<or> CHR ''S'' \<in> set d")
    case True
    then have s: "CHR ''s'' \<in> set (re_sub_non_digit_s (lower d))"
      by (simp add: s_in_token)
    show ?thesis
      using False True s
      by (simp add: parse_date_def Let_def token_strip is_bc_strip replace_s_token
            py_int_take_4)
  next
    case F: False
    then have s: "CHR ''s'' \<notin> set (re_sub_non_digit_s (lower d))"
      by (simp add: s_in_token)
    have t: "re_sub_non_digit_s (lower d) = filter is_digit d"
      using s by (rule token_no_s)
    have z: "int_of_digits [] = 0"
      by (simp add: int_of_digits_def)
    show ?thesis
      using False F s
      by (simp add: parse_date_def Let_def token_strip is_bc_strip t
            py_int_digits list_all_filter_digit z)
  qed
qed

lemma same_token_same_text:
  assumes "re_sub_non_digit_s (lower (strip d')) = re_sub_non_digit_s (lower (strip d))"
  shows "(CHR ''s'' \<in> set d' \<or> CHR ''S'' \<in> set d') = (CHR ''s'' \<in> set d \<or> CHR ''S'' \<in> set d)"
    and "filter is_digit d' = filter is_digit d"
proof -
  from assms have t: "re_sub_non_digit_s (lower d') = re_sub_non_digit_s (lower d)"
    by (simp add: token_strip)
  show "(CHR ''s'' \<in> set d' \<or> CHR ''S'' \<in> set d') = (CHR ''s'' \<in> set d \<or> CHR ''S'' \<in> set d)"
    using s_in_token [of d'] s_in_token [of d] t by simp
  show "filter is_digit d' = filter is_digit d"
    using replace_s_token [of d'] replace_s_token [of d] t by simp
qed

lemma lower_Nil_iff: "lower q = [] \<longleftrightarrow> q = []"
  by (simp add: lower_def)

lemma dict_get_missing: "b k = None \<Longrightarrow> dict_get b k d = d"
  by (simp add: dict_get_def)

lemma example_fields:
  "dict_get example_hobbit ''title'' [] = ''The Hobbit''"
  "dict_get example_hobbit ''author'' [] = ''J.R.R. Tolkien''"
  "dict_get example_dune ''title'' [] = ''Dune''"
  "dict_get example_dune ''author'' [] = ''Frank Herbert''"
  "example_untitled ''title'' = None"
  "example_untitled ''author'' = None"
  "dict_get example_fellowship ''title'' [] = ''The Fellowship of the Ring''"
  "dict_get example_fellowship ''author'' [] = []"
  by (simp_all add: dict_get_def example_hobbit_def example_dune_def example_untitled_def
        example_fellowship_def)

lemma example_matches:
  "sublist (lower ''TOLKIEN'') (lower ''J.R.R. Tolkien'')"
  "\<not> sublist (lower ''TOLKIEN'') (lower ''The Hobbit'')"
  "\<not> sublist (lower ''TOLKIEN'') (lower ''Dune'')"
  "\<not> sublist (lower ''TOLKIEN'') (lower ''Frank Herbert'')"
  by code_simp+

section \<open>Claims about \<open>parse_date\<close>\<close>

text \<open>
  C1. The specification says that the normalizer returns an integer for every string and
  never raises, with 0 for whatever cannot be parsed. The decade branch calls \<open>int\<close>
  outside any \<open>try\<close>: when the text holds the letter s and no digit, \<open>int('')\<close> raises
  ValueError and \<open>parse_date\<close> does not return. The other branch catches the same error and
  returns 0.
\<close>

theorem parse_date_raises_ValueError:
  "parse_date (Some ''Classical antiquity'') = Inl ValueError"
  by code_simp

text \<open>
  C2, as the specification states it: the decade year is read from the digits before the s.
  The code removes every s and keeps the first four characters of what is left, so digits
  after the s count as well: for "5 Sept 1963" the specification's reading gives 5 + 5 = 10
  and the code gives 5196 + 5 = 5201.
\<close>

theorem parse_date_decade_counterexample:
  "re_sub_non_digit_s (lower (strip ''5 Sept 1963'')) = ''5s1963'' \<and>
   decade_midpoint_spec ''5s1963'' = Inr 10 \<and>
   parse_date (Some ''5 Sept 1963'') = Inr 5201"
  by code_simp

text \<open>
  C2, amended. For every text whose cleaned token holds an s and that holds at least one
  digit, \<open>parse_date\<close> returns the number written by the first four digits of the text
  (wherever they stand relative to the s) plus 5, negated when the lowercased text holds
  "bc" or "b.c."; in particular "1960s" gives 1965 and "300s BC" gives -305.
\<close>

theorem parse_date_decade:
  assumes "CHR ''s'' \<in> set (re_sub_non_digit_s (lower (strip d)))"
    and "filter is_digit d \<noteq> []"
  shows "parse_date (Some d) =
           Inr (if sublist ''bc'' (lower d) \<or> sublist ''b.c.'' (lower d)
                then - (int_of_digits (take 4 (filter is_digit d)) + 5)
                else int_of_digits (take 4 (filter is_digit d)) + 5)"
proof -
  from assms(1) have "CHR ''s'' \<in> set d \<or> CHR ''S'' \<in> set d"
    by (simp add: token_strip s_in_token)
  with assms(2) show ?thesis
    by (simp add: parse_date_Some)
qed

theorem parse_date_decade_witness:
  "CHR ''s'' \<in> set (re_sub_non_digit_s (lower (strip ''1960s''))) \<and>
   filter is_digit ''1960s'' \<noteq> [] \<and>
   parse_date (Some ''1960s'') = Inr 1965 \<and>
   CHR ''s'' \<in> set (re_sub_non_digit_s (lower (strip ''300s BC''))) \<and>
   filter is_digit ''300s BC'' \<noteq> [] \<and>
   parse_date (Some ''300s BC'') = Inr (- 305)"
proof -
  have a1: "CHR ''s'' \<in> set (re_sub_non_digit_s (lower (strip ''1960s'')))"
    by code_simp
  have a2: "filter is_digit ''1960s'' \<noteq> []"
    by code_simp
  have a3: "(if sublist ''bc'' (lower ''1960s'') \<or> sublist ''b.c.'' (lower ''1960s'')
             then - (int_of_digits (take 4 (filter is_digit ''1960s'')) + 5)
             else int_of_digits (take 4 (filter is_digit ''1960s'')) + 5) = 1965"
    by code_simp
  have b1: "CHR ''s'' \<in> set (re_sub_non_digit_s (lower (strip ''300s BC'')))"
    by code_simp
  have b2: "filter is_digit ''300s BC'' \<noteq> []"
    by code_simp
  have b3: "(if sublist ''bc'' (lower ''300s BC'') \<or> sublist ''b.c.'' (lower ''300s BC'')
             then - (int_of_digits (take 4 (filter is_digit ''300s BC'')) + 5)
             else int_of_digits (take 4 (filter is_digit ''300s BC'')) + 5) = - 305"
    by code_simp
  have c1: "parse_date (Some ''1960s'') = Inr 1965"
    using parse_date_decade [OF a1 a2] by (simp only: a3)
  have c2: "parse_date (Some ''300s BC'') = Inr (- 305)"
    using parse_date_decade [OF b1 b2] by (simp only: b3)
  from a1 a2 b1 b2 c1 c2 show ?thesis by blast
qed

text \<open>
  C3, as the specification states it: the text is BC when it holds "bc" in any case, with or
  without punctuation inside the marker. The code looks for exactly "bc" and "b.c." in the
  trimmed, lowercased text, so "80 B.C", whose marker has the period inside and none after
  it, is not taken as BC and comes back positive.
\<close>

theorem parse_date_era_counterexample:
  "bc_marker_spec ''80 B.C'' \<and> parse_date (Some ''80 B.C'') = Inr 80"
  by code_simp

text \<open>
  C3, amended. Whenever \<open>parse_date\<close> returns a year, the year is non-positive exactly under
  the marker: it is minus its magnitude when the lowercased text holds "bc" or "b.c.", and
  its magnitude otherwise. The magnitude belongs to the cleaned token alone: every text with
  the same cleaned token gets the same magnitude, with the sign its own marker gives. So
  "80 BC" and "80 B.C." give -80, "80" gives 80 and "1963" gives 1963.
\<close>

theorem parse_date_era:
  assumes "parse_date (Some d) = Inr y"
  shows "y = (if sublist ''bc'' (lower d) \<or> sublist ''b.c.'' (lower d) then - \<bar>y\<bar> else \<bar>y\<bar>) \<and>
         (\<forall>d'. re_sub_non_digit_s (lower (strip d')) = re_sub_non_digit_s (lower (strip d)) \<longrightarrow>
            parse_date (Some d') =
              Inr (if sublist ''bc'' (lower d') \<or> sublist ''b.c.'' (lower d') then - \<bar>y\<bar> else \<bar>y\<bar>))"
proof (cases "CHR ''s'' \<in> set d \<or> CHR ''S'' \<in> set d")
  case True
  let ?v = "int_of_digits (take 4 (filter is_digit d)) + 5"
  have nn: "0 \<le> ?v"
    using int_of_digits_nonneg [OF list_all_take_digit, of 4 d] by simp
  from assms True have ne: "filter is_digit d \<noteq> []"
    by (auto simp: parse_date_Some split: if_splits)
  from assms True ne have y: "y = (if sublist ''bc'' (lower d) \<or> sublist ''b.c.'' (lower d) then - ?v else ?v)"
    by (simp add: parse_date_Some)
  with nn have ay: "\<bar>y\<bar> = ?v"
    by (simp split: if_splits)
  have "parse_date (Some d') =
          Inr (if sublist ''bc'' (lower d') \<or> sublist ''b.c.'' (lower d') then - \<bar>y\<bar> else \<bar>y\<bar>)"
    if "re_sub_non_digit_s (lower (strip d')) = re_sub_non_digit_s (lower (strip d))" for d'
    using same_token_same_text [OF that] True ne
    by (simp add: parse_date_Some [of d'] ay)
  with y ay show ?thesis by simp
next
  case False
  let ?v = "if int_max_str_digits < length (filter is_digit d) then 0
            else int_of_digits (filter is_digit d)"
  have nn: "0 \<le> ?v"
    using int_of_digits_nonneg [OF list_all_filter_digit, of d] by simp
  from assms False have y: "y = (if sublist ''bc'' (lower d) \<or> sublist ''b.c.'' (lower d) then - ?v else ?v)"
    by (auto simp: parse_date_Some split: if_splits)
  with nn have ay: "\<bar>y\<bar> = ?v"
    by (simp split: if_splits)
  have "parse_date (Some d') =
          Inr (if sublist ''bc'' (lower d') \<or> sublist ''b.c.'' (lower d') then - \<bar>y\<bar> else \<bar>y\<bar>)"
    if "re_sub_non_digit_s (lower (strip d')) = re_sub_non_digit_s (lower (strip d))" for d'
    using same_token_same_text [OF that] False
    by (auto simp: parse_date_Some [of d'] ay)
  with y ay show ?thesis by simp
qed

theorem parse_date_era_witness:
  "parse_date (Some ''80 BC'') = Inr (- 80) \<and>
   (sublist ''bc'' (lower ''80 BC'') \<or> sublist ''b.c.'' (lower ''80 BC'')) \<and>
   re_sub_non_digit_s (lower (strip ''80'')) = re_sub_non_digit_s (lower (strip ''80 BC'')) \<and>
   \<not> (sublist ''bc'' (lower ''80'') \<or> sublist ''b.c.'' (lower ''80'')) \<and>
   parse_date (Some ''80'') = Inr 80 \<and>
   parse_date (Some ''80 B.C.'') = Inr (- 80) \<and>
   parse_date (Some ''1963'') = Inr 1963"
proof -
  have h: "parse_date (Some ''80 BC'') = Inr (- 80)"
    by code_simp
  have m: "sublist ''bc'' (lower ''80 BC'') \<or> sublist ''b.c.'' (lower ''80 BC'')"
    by code_simp
  have t: "re_sub_non_digit_s (lower (strip ''80'')) = re_sub_non_digit_s (lower (strip ''80 BC''))"
    by code_simp
  have n: "\<not> (sublist ''bc'' (lower ''80'') \<or> sublist ''b.c.'' (lower ''80''))"
    by code_simp
  have t2: "re_sub_non_digit_s (lower (strip ''80 B.C.'')) = re_sub_non_digit_s (lower (strip ''80 BC''))"
    by code_simp
  have m2: "sublist ''bc'' (lower ''80 B.C.'') \<or> sublist ''b.c.'' (lower ''80 B.C.'')"
    by code_simp
  from parse_date_era [OF h] t n have p: "parse_date (Some ''80'') = Inr 80"
    by simp
  from parse_date_era [OF h] t2 m2 have p2: "parse_date (Some ''80 B.C.'') = Inr (- 80)"
    by simp
  have q: "parse_date (Some ''1963'') = Inr 1963"
    by code_simp
  from h m t n p p2 q show ?thesis by blast
qed

text \<open>
  C9, as the specification states it: text around a plain year is stripped to its digits.
  The letter s is kept with the digits, and a token that holds one is a decade: "published
  1200" has the digits 1200 and comes back as 1205.
\<close>

theorem parse_date_plain_counterexample:
  "CHR ''s'' \<in> set ''published 1200'' \<and> filter is_digit ''published 1200'' = ''1200'' \<and> parse_date (Some ''published 1200'') = Inr 1205"
  by code_simp

text \<open>
  C9, amended. The absent and the empty text give 0. A text without the letter s (in either
  case) and with at most 4300 digits gives the number written by its digits in order,
  negated under the era marker, so "circa 1200" gives 1200; it gives 0 when it holds no
  digit, and 0 as well when it holds more than 4300 digits, which \<open>int\<close> does not convert.
\<close>

theorem parse_date_plain:
  "parse_date None = Inr 0 \<and> parse_date (Some []) = Inr 0 \<and>
   (CHR ''s'' \<notin> set d \<and> CHR ''S'' \<notin> set d \<and> length (filter is_digit d) \<le> 4300 \<longrightarrow>
      parse_date (Some d) =
        Inr (if sublist ''bc'' (lower d) \<or> sublist ''b.c.'' (lower d)
             then - int_of_digits (filter is_digit d) else int_of_digits (filter is_digit d))) \<and>
   (CHR ''s'' \<notin> set d \<and> CHR ''S'' \<notin> set d \<and> filter is_digit d = [] \<longrightarrow>
      parse_date (Some d) = Inr 0) \<and>
   (CHR ''s'' \<notin> set d \<and> CHR ''S'' \<notin> set d \<and> 4300 < length (filter is_digit d) \<longrightarrow>
      parse_date (Some d) = Inr 0)"
proof -
  have z: "int_of_digits [] = 0"
    by (simp add: int_of_digits_def)
  have "parse_date None = Inr 0"
    by (simp add: parse_date_def)
  moreover have "parse_date (Some []) = Inr 0"
    by (simp add: parse_date_def)
  ultimately show ?thesis
    by (auto simp: parse_date_Some [of d] z int_max_str_digits_def)
qed

theorem parse_date_plain_witness:
  "CHR ''s'' \<notin> set ''circa 1200'' \<and> CHR ''S'' \<notin> set ''circa 1200'' \<and>
   length (filter is_digit ''circa 1200'') \<le> 4300 \<and>
   parse_date (Some ''circa 1200'') = Inr 1200 \<and>
   CHR ''s'' \<notin> set ''Unknown'' \<and> CHR ''S'' \<notin> set ''Unknown'' \<and> filter is_digit ''Unknown'' = [] \<and>
   parse_date (Some ''Unknown'') = Inr 0 \<and>
   CHR ''s'' \<notin> set (replicate 4301 (CHR ''1'')) \<and> CHR ''S'' \<notin> set (replicate 4301 (CHR ''1'')) \<and>
   4300 < length (filter is_digit (replicate 4301 (CHR ''1''))) \<and>
   parse_date (Some (replicate 4301 (CHR ''1''))) = Inr 0"
proof -
  have a: "CHR ''s'' \<notin> set ''circa 1200'' \<and> CHR ''S'' \<notin> set ''circa 1200'' \<and>
           length (filter is_digit ''circa 1200'') \<le> 4300"
    by code_simp
  have v: "(if sublist ''bc'' (lower ''circa 1200'') \<or> sublist ''b.c.'' (lower ''circa 1200'')
            then - int_of_digits (filter is_digit ''circa 1200'')
            else int_of_digits (filter is_digit ''circa 1200'')) = 1200"
    by code_simp
  have b: "CHR ''s'' \<notin> set ''Unknown'' \<and> CHR ''S'' \<notin> set ''Unknown'' \<and> filter is_digit ''Unknown'' = []"
    by code_simp
  have c: "CHR ''s'' \<notin> set (replicate 4301 (CHR ''1'')) \<and> CHR ''S'' \<notin> set (replicate 4301 (CHR ''1'')) \<and>
           4300 < length (filter is_digit (replicate 4301 (CHR ''1'')))"
    by (simp add: is_digit_def)
  from parse_date_plain [of "''circa 1200''"] a have p: "parse_date (Some ''circa 1200'') = Inr 1200"
    by (simp only: v simp_thms)
  from parse_date_plain [of "''Unknown''"] b have q: "parse_date (Some ''Unknown'') = Inr 0"
    by blast
  from parse_date_plain [of "replicate 4301 (CHR ''1'')"] c
  have r: "parse_date (Some (replicate 4301 (CHR ''1''))) = Inr 0"
    by blast
  from a b c p q r show ?thesis by blast
qed

section \<open>Claims about the search filter\<close>

text \<open>
  C7. For every sequence of records and every query, the filter returns exactly the records
  whose lowercased title or lowercased author holds the lowercased query as a substring, in
  the order of the input; a missing title or author counts as the empty string and does
  not match a query that is not empty; and the empty query returns the input unchanged.
\<close>

theorem filter_books_spec:
  "filter_books books search_query =
     filter (\<lambda>b. sublist (lower search_query) (lower (dict_get b ''title'' []))
               \<or> sublist (lower search_query) (lower (dict_get b ''author'' []))) books \<and>
   (search_query \<noteq> [] \<and> b ''title'' = None \<longrightarrow>
      \<not> sublist (lower search_query) (lower (dict_get b ''title'' []))) \<and>
   (search_query \<noteq> [] \<and> b ''author'' = None \<longrightarrow>
      \<not> sublist (lower search_query) (lower (dict_get b ''author'' []))) \<and>
   (search_query \<noteq> [] \<and> b ''title'' = None \<and> b ''author'' = None \<longrightarrow>
      b \<notin> set (filter_books books search_query)) \<and>
   filter_books books [] = books"
proof -
  have e: "filter_books books [] = books"
    by (simp add: filter_books_def)
  have f: "filter_books books search_query =
     filter (\<lambda>b. sublist (lower search_query) (lower (dict_get b ''title'' []))
               \<or> sublist (lower search_query) (lower (dict_get b ''author'' []))) books"
  proof (cases "search_query = []")
    case True
    then show ?thesis by (simp add: filter_books_def lower_def)
  next
    case False
    then show ?thesis by (simp add: filter_books_def Let_def)
  qed
  have t: "\<not> sublist (lower search_query) (lower (dict_get b ''title'' []))"
    if "search_query \<noteq> []" "b ''title'' = None"
    using that by (simp add: dict_get_missing lower_def)
  have a: "\<not> sublist (lower search_query) (lower (dict_get b ''author'' []))"
    if "search_query \<noteq> []" "b ''author'' = None"
    using that by (simp add: dict_get_missing lower_def)
  have n: "b \<notin> set (filter_books books search_query)"
    if "search_query \<noteq> []" "b ''title'' = None" "b ''author'' = None"
    using that t a by (simp add: f)
  from e f t a n show ?thesis by blast
qed

theorem filter_books_spec_witness:
  "filter_books [example_dune, example_hobbit, example_untitled] ''TOLKIEN'' = [example_hobbit] \<and>
   ''TOLKIEN'' \<noteq> [] \<and> example_untitled ''title'' = None \<and> example_untitled ''author'' = None \<and>
   example_untitled \<notin> set (filter_books [example_dune, example_hobbit, example_untitled] ''TOLKIEN'') \<and>
   filter_books [example_dune, example_hobbit, example_untitled] [] =
     [example_dune, example_hobbit, example_untitled]"
proof -
  note w = filter_books_spec [of "[example_dune, example_hobbit, example_untitled]" "''TOLKIEN''" example_untitled]
  have q: "''TOLKIEN'' \<noteq> []" by simp
  from w q example_fields(5) have u1: "\<not> sublist (lower ''TOLKIEN'') (lower (dict_get example_untitled ''title'' []))"
    by blast
  from w q example_fields(6) have u2: "\<not> sublist (lower ''TOLKIEN'') (lower (dict_get example_untitled ''author'' []))"
    by blast
  from w q example_fields(5,6)
  have u3: "example_untitled \<notin> set (filter_books [example_dune, example_hobbit, example_untitled] ''TOLKIEN'')"
    by blast
  from w have "filter_books [example_dune, example_hobbit, example_untitled] ''TOLKIEN'' =
     filter (\<lambda>b. sublist (lower ''TOLKIEN'') (lower (dict_get b ''title'' []))
               \<or> sublist (lower ''TOLKIEN'') (lower (dict_get b ''author'' [])))
       [example_dune, example_hobbit, example_untitled]"
    by (rule conjunct1)
  then have r: "filter_books [example_dune, example_hobbit, example_untitled] ''TOLKIEN'' = [example_hobbit]"
    using u1 u2 by (simp add: example_fields example_matches)
  from w have e: "filter_books [example_dune, example_hobbit, example_untitled] [] =
     [example_dune, example_hobbit, example_untitled]"
    by blast
  from r q u3 e example_fields(5,6) show ?thesis by blast
qed

text \<open>
  C10. For a query that is not empty the output is a subsequence of the input: the matching
  records, each as often as it occurs, in their input order.
\<close>

theorem filter_books_order:
  assumes "search_query \<noteq> []"
  shows "subseq (filter_books books search_query) books \<and>
         filter_books books search_query =
           filter (\<lambda>b. sublist (lower search_query) (lower (dict_get b ''title'' []))
                     \<or> sublist (lower search_query) (lower (dict_get b ''author'' []))) books"
  using assms by (simp add: filter_books_def Let_def)

theorem filter_books_order_witness:
  "''herbert'' \<noteq> [] \<and>
   subseq (filter_books [example_dune, example_hobbit, example_dune] ''herbert'')
     [example_dune, example_hobbit, example_dune] \<and>
   filter_books [example_dune, example_hobbit, example_dune] ''herbert'' = [example_dune, example_dune] \<and>
   ''THE'' \<noteq> [] \<and>
   filter_books [example_hobbit, example_dune, example_fellowship] ''THE'' =
     [example_hobbit, example_fellowship] \<and>
   filter_books [example_fellowship, example_dune, example_hobbit] ''THE'' =
     [example_fellowship, example_hobbit]"
proof -
  have q: "''herbert'' \<noteq> []" by simp
  have m: "sublist (lower ''herbert'') (lower ''Frank Herbert'')"
      "\<not> sublist (lower ''herbert'') (lower ''The Hobbit'')"
      "\<not> sublist (lower ''herbert'') (lower ''J.R.R. Tolkien'')"
    by code_simp+
  note w = filter_books_order [OF q, of "[example_dune, example_hobbit, example_dune]"]
  from w have r: "filter_books [example_dune, example_hobbit, example_dune] ''herbert'' = [example_dune, example_dune]"
    by (simp add: example_fields m)
  have q': "''THE'' \<noteq> []" by simp
  have m': "sublist (lower ''THE'') (lower ''The Hobbit'')"
      "sublist (lower ''THE'') (lower ''The Fellowship of the Ring'')"
      "\<not> sublist (lower ''THE'') (lower ''Dune'')"
      "\<not> sublist (lower ''THE'') (lower ''Frank Herbert'')"
    by code_simp+
  from filter_books_order [OF q', of "[example_hobbit, example_dune, example_fellowship]"]
  have r1: "filter_books [example_hobbit, example_dune, example_fellowship] ''THE'' =
      [example_hobbit, example_fellowship]"
    by (simp add: example_fields m')
  from filter_books_order [OF q', of "[example_fellowship, example_dune, example_hobbit]"]
  have r2: "filter_books [example_fellowship, example_dune, example_hobbit] ''THE'' =
      [example_fellowship, example_hobbit]"
    by (simp add: example_fields m')
  from w q r q' r1 r2 show ?thesis by blast
qed

section \<open>Sorting\<close>

text \<open>
  \<open>sort_books\<close> returns exactly when the key of every record can be computed, that is, when
  \<open>parse_date\<close> raises on none of the date fields. What it returns is then the stable sort
  of the input by the pair of normalized dates: ordered by the pair (ascending, or
  descending under \<open>reverse\<close>), with records of equal keys in their input order in both
  directions, and a permutation of the input; without ties the descending result is the
  ascending one reversed.
\<close>

lemma decorate_Inr:
  "(\<And>x. x \<in> set xs \<Longrightarrow> \<exists>k. key x = Inr k) \<Longrightarrow>
   decorate key xs = Inr (map (\<lambda>x. (projr (key x), x)) xs)"
proof (induction xs)
  case Nil
  show ?case by simp
next
  case (Cons x xs)
  then obtain k where "key x = Inr k" by auto
  with Cons show ?case by simp
qed

lemma decorate_Inl:
  "x \<in> set xs \<Longrightarrow> key x = Inl e \<Longrightarrow> \<exists>e'. decorate key xs = Inl e'"
  by (induction xs) (auto split: sum.splits)

lemma decorate_Inr_keys:
  "decorate key xs = Inr kxs \<Longrightarrow> x \<in> set xs \<Longrightarrow> \<exists>k. key x = Inr k"
  by (induction xs arbitrary: kxs) (auto split: sum.splits)

lemma insort_key_map:
  "insort_key f (g x) (map g ys) = map g (insort_key (\<lambda>a. f (g a)) x ys)"
  by (induction ys) simp_all

lemma sort_key_map: "sort_key f (map g xs) = map g (sort_key (\<lambda>a. f (g a)) xs)"
  by (induction xs) (simp_all add: insort_key_map)

lemma undecorate_sort:
  "map snd (sort_key fst (map (\<lambda>x. (K x, x)) xs)) = sort_key K xs"
  by (simp add: sort_key_map comp_def)

lemma py_sorted_Inr:
  assumes "\<And>x. x \<in> set xs \<Longrightarrow> \<exists>k. key x = Inr k"
  shows "py_sorted xs key reverse =
           Inr (if reverse then rev (sort_key (\<lambda>x. projr (key x)) (rev xs))
                else sort_key (\<lambda>x. projr (key x)) xs)"
proof -
  have "map snd (rev (sort_key fst (rev (map (\<lambda>x. (projr (key x), x)) xs)))) =
        rev (map snd (sort_key fst (map (\<lambda>x. (projr (key x), x)) (rev xs))))"
    by (simp add: rev_map)
  then have "map snd (rev (sort_key fst (rev (map (\<lambda>x. (projr (key x), x)) xs)))) =
        rev (sort_key (\<lambda>x. projr (key x)) (rev xs))"
    by (simp only: undecorate_sort)
  then show ?thesis
    using decorate_Inr [of xs key, OF assms]
    by (simp add: py_sorted_def undecorate_sort)
qed

lemma py_sorted_returns_iff:
  "(\<exists>ys. py_sorted xs key reverse = Inr ys) \<longleftrightarrow> (\<forall>x\<in>set xs. \<exists>k. key x = Inr k)"
proof
  assume "\<exists>ys. py_sorted xs key reverse = Inr ys"
  then obtain kxs where "decorate key xs = Inr kxs"
    by (auto simp: py_sorted_def split: sum.splits)
  then show "\<forall>x\<in>set xs. \<exists>k. key x = Inr k"
    by (blast dest: decorate_Inr_keys)
next
  assume "\<forall>x\<in>set xs. \<exists>k. key x = Inr k"
  then show "\<exists>ys. py_sorted xs key reverse = Inr ys"
    by (simp add: py_sorted_Inr)
qed

lemma sort_books_returns_iff:
  "(\<exists>ys. sort_books books reverse = Inr ys) \<longleftrightarrow> (\<forall>b\<in>set books. \<exists>k. sort_key_book b = Inr k)"
  by (simp add: sort_books_def py_sorted_returns_iff)

lemma sort_books_Inr:
  assumes "sort_books books reverse = Inr ys"
  shows "ys = (if reverse then rev (sort_key (\<lambda>b. projr (sort_key_book b)) (rev books))
               else sort_key (\<lambda>b. projr (sort_key_book b)) books)"
proof -
  from assms have "\<forall>b\<in>set books. \<exists>k. sort_key_book b = Inr k"
    using sort_books_returns_iff by blast
  then have "sort_books books reverse =
      Inr (if reverse then rev (sort_key (\<lambda>b. projr (sort_key_book b)) (rev books))
           else sort_key (\<lambda>b. projr (sort_key_book b)) books)"
    unfolding sort_books_def by (intro py_sorted_Inr) blast
  with assms show ?thesis by simp
qed

lemma sort_books_ordered:
  assumes "sort_books books reverse = Inr ys"
  shows "if reverse then sorted (rev (map (\<lambda>b. projr (sort_key_book b)) ys))
         else sorted (map (\<lambda>b. projr (sort_key_book b)) ys)"
  using sort_books_Inr [OF assms] by (simp add: rev_map [symmetric])

lemma sort_books_stable:
  assumes "sort_books books reverse = Inr ys"
  shows "filter (\<lambda>b. projr (sort_key_book b) = k) ys = filter (\<lambda>b. projr (sort_key_book b) = k) books"
proof (cases reverse)
  case True
  with sort_books_Inr [OF assms]
  have "filter (\<lambda>b. projr (sort_key_book b) = k) ys =
        rev (filter (\<lambda>b. projr (sort_key_book b) = k) (sort_key (\<lambda>b. projr (sort_key_book b)) (rev books)))"
    by (simp add: rev_filter)
  also have "\<dots> = rev (filter (\<lambda>b. projr (sort_key_book b) = k) (rev books))"
    by (simp only: sort_key_stable)
  finally show ?thesis by (simp add: rev_filter)
next
  case False
  with sort_books_Inr [OF assms] show ?thesis
    by (simp add: sort_key_stable)
qed

lemma sort_books_mset:
  assumes "sort_books books reverse = Inr ys"
  shows "mset ys = mset books \<and> length ys = length books"
  using sort_books_Inr [OF assms] by simp

lemma filter_key_distinct:
  "distinct (map f xs) \<Longrightarrow> filter (\<lambda>x. f x = c) (rev xs) = filter (\<lambda>x. f x = c) xs"
proof (induction xs)
  case Nil
  show ?case by simp
next
  case (Cons x xs)
  show ?case
  proof (cases "f x = c")
    case True
    from Cons.prems have "f x \<notin> f ` set xs"
      by simp
    with True have "\<forall>y\<in>set xs. f y \<noteq> c"
      by blast
    then have "filter (\<lambda>x. f x = c) xs = []"
      by (simp add: filter_empty_conv)
    with True Cons show ?thesis by simp
  next
    case False
    with Cons show ?thesis by simp
  qed
qed

lemma sort_key_rev_distinct:
  assumes "distinct (map f xs)"
  shows "sort_key f (rev xs) = sort_key f xs"
proof (rule properties_for_sort_key)
  show "mset (sort_key f xs) = mset (rev xs)" by simp
  show "sorted (map f (sort_key f xs))" by simp
  fix k
  have "filter (\<lambda>x. f x = f k) (sort_key f xs) = filter (\<lambda>x. f x = f k) (rev xs)"
    using filter_key_distinct [OF assms, of "f k"] by (simp add: sort_key_stable)
  then show "filter (\<lambda>x. f k = f x) (sort_key f xs) = filter (\<lambda>x. f k = f x) (rev xs)"
    by (simp add: eq_commute [of "f k"])
qed

lemma sort_books_reverse_distinct:
  assumes "sort_books books False = Inr ys"
    and "distinct (map (\<lambda>b. projr (sort_key_book b)) books)"
  shows "sort_books books True = Inr (rev ys)"
proof -
  from assms(1) have k: "\<forall>b\<in>set books. \<exists>k. sort_key_book b = Inr k"
    using sort_books_returns_iff by blast
  then obtain zs where z: "sort_books books True = Inr zs"
    using sort_books_returns_iff by blast
  from sort_books_Inr [OF z] sort_books_Inr [OF assms(1)] sort_key_rev_distinct [OF assms(2)]
  have "zs = rev ys" by simp
  with z show ?thesis by simp
qed

lemma example_dates:
  "parse_date (Some ''1937'') = Inr 1937"
  "parse_date (Some ''1954'') = Inr 1954"
  "parse_date (Some ''1965'') = Inr 1965"
  "parse_date (Some []) = Inr 0"
  "parse_date (Some ''Classical antiquity'') = Inl ValueError"
  by code_simp+

lemma example_keys:
  "sort_key_book example_hobbit = Inr (1937, 0)"
  "sort_key_book example_dune = Inr (1965, 0)"
  "sort_key_book example_fellowship = Inr (1954, 0)"
  "sort_key_book example_towers = Inr (1954, 0)"
  "sort_key_book example_iliad = Inl ValueError"
  by (simp_all add: sort_key_book_def dict_get_def example_dates example_hobbit_def example_dune_def
        example_fellowship_def example_towers_def example_iliad_def)

lemma sort_books_example:
  "sort_books [example_dune, example_fellowship, example_hobbit, example_towers] False =
     Inr [example_hobbit, example_fellowship, example_towers, example_dune] \<and>
   sort_books [example_dune, example_fellowship, example_hobbit, example_towers] True =
     Inr [example_dune, example_fellowship, example_towers, example_hobbit]"
  by (simp add: sort_books_def py_sorted_def example_keys)

section \<open>Claims about \<open>sort_books\<close>\<close>

text \<open>
  C4. The specification has \<open>sort_books\<close> order every sequence of records by the pair of
  normalized dates. A record whose original date holds the letter s and no digit makes the
  key function raise ValueError (the defect of C1), and \<open>sorted\<close> passes the exception
  on: no ordering is produced, in either direction.
\<close>

theorem sort_books_raises_unordered:
  "sort_books [example_dune, example_iliad, example_hobbit] False = Inl ValueError \<and>
   sort_books [example_dune, example_iliad, example_hobbit] True = Inl ValueError"
  by (simp add: sort_books_def py_sorted_def example_keys)

text \<open>
  C5. The specification has two records with equal keys keep their input order in the
  ascending output of every input. The two volumes below have the same key, and with a
  third record whose date makes \<open>parse_date\<close> raise (the defect of C1) there is no output
  for them to appear in.
\<close>

theorem sort_books_raises_with_tie:
  "sort_key_book example_fellowship = sort_key_book example_towers \<and>
   sort_books [example_fellowship, example_towers, example_iliad] False = Inl ValueError"
  by (simp add: sort_books_def py_sorted_def example_keys)

text \<open>
  C6. The specification compares the descending output with the reversed ascending one for
  every input without ties. The two records below have different keys, and neither call
  returns: the second record's date makes \<open>parse_date\<close> raise (the defect of C1).
\<close>

theorem sort_books_raises_descending:
  "sort_key_book example_dune \<noteq> sort_key_book example_iliad \<and>
   sort_books [example_dune, example_iliad] True = Inl ValueError \<and>
   sort_books [example_dune, example_iliad] False = Inl ValueError"
  by (simp add: sort_books_def py_sorted_def example_keys)

text \<open>
  C8. The specification has \<open>sort_books\<close> return a permutation of every input, in either
  direction. On the one-record input below it returns nothing: \<open>parse_date\<close> raises on
  the record's original date (the defect of C1). The input list itself is never changed:
  \<open>sorted\<close> builds a new list, and the model is a function of its arguments.
\<close>

theorem sort_books_raises_no_permutation:
  "sort_books [example_iliad] False = Inl ValueError \<and>
   sort_books [example_iliad] True = Inl ValueError"
  by (simp add: sort_books_def py_sorted_def example_keys)

end
